theory Spec2Isabelle
  imports Main "HOL-Library.AList" "HOL-Library.Sublist"
begin

section \<open>Per-user OAuth2 credentials (integrations/googleAuth.ts)\<close>

text \<open>
  A JavaScript exception is a value carrying its message. Messages thrown by the program
  itself are the literals of the source; messages of failures raised by the platform (file
  system, JSON parser, HTTP library) are supplied by the environment.
\<close>

datatype error = Error string

fun message :: "error \<Rightarrow> string" where
  "message (Error m) = m"

text \<open>
  An optional property of an object: the key is missing, or it is present with the value
  null, or it is present with a proper value.
\<close>

datatype 'a field = Absent | Null | Val 'a

text \<open>
  Modelled from the spec: the \<^verbatim>\<open>Credentials\<close> interface is imported from google-auth-library
  and its declaration is not part of the sources. The fields are the ones the specification
  lists for a stored token set (access token, refresh token, expiry, scope, token type), under
  the property names the source reads (\<^verbatim>\<open>access_token\<close>, \<^verbatim>\<open>refresh_token\<close>, \<^verbatim>\<open>expiry_date\<close>).
  Times are integers: milliseconds since the epoch.
\<close>

record Credentials =
  access_token :: "string field"
  refresh_token :: "string field"
  expiry_date :: "int field"
  scope :: "string field"
  token_type :: "string field"

text \<open>
  The object \<^verbatim>\<open>{ [key: string]: Credentials }\<close>: an association list in insertion order.
  Assignment to a key is \<^const>\<open>AList.update\<close>, \<^verbatim>\<open>delete\<close> is \<^const>\<open>AList.delete\<close>,
  a property read is \<^const>\<open>map_of\<close>, and \<^verbatim>\<open>Object.keys(o).length > 0\<close> is \<open>o \<noteq> []\<close>.
\<close>

type_synonym tokens = "(string \<times> Credentials) list"

text \<open>
  The token objects are shared and mutated in place (\<^verbatim>\<open>allTokens[userId] = ...\<close> on the object
  that \<^verbatim>\<open>userTokensCache\<close> may also reference), so they live in an explicit store.
\<close>

type_synonym ref = nat

record app_config =
  client_id :: string
  client_secret :: string
  redirect_uris :: "string list"

record config =
  installed :: "app_config option"
  web :: "app_config option"

text \<open>
  A file on disk: it does not exist, or reading and parsing it throws (with the platform's
  message), or it parses to a value.
\<close>

datatype 'a fs_file = Missing | Unreadable string | Content 'a

record state =
  heap :: "ref \<Rightarrow> tokens"
  next_ref :: ref
  userTokensCache :: ref
  credentialsCache :: "config option"
  USER_TOKENS_PATH :: "tokens fs_file"
  CREDENTIALS_PATH :: "config fs_file"

record OAuth2Client =
  clientId :: string
  clientSecret :: string
  redirectUri :: "string option"
  credentials :: Credentials

text \<open>A fresh object literal or a freshly parsed object.\<close>

definition alloc :: "tokens \<Rightarrow> state \<Rightarrow> ref \<times> state" where
  "alloc v s = (next_ref s, s\<lparr>heap := (heap s)(next_ref s := v), next_ref := Suc (next_ref s)\<rparr>)"

definition loadCredentials :: "state \<Rightarrow> (error + config) \<times> state" where
  "loadCredentials s =
     (case credentialsCache s of
        Some c \<Rightarrow> (Inr c, s)
      | None \<Rightarrow>
          (case CREDENTIALS_PATH s of
             Missing \<Rightarrow> (Inl (Error ''Google API credentials not found''), s)
           | Unreadable msg \<Rightarrow> (Inl (Error msg), s)
           | Content c \<Rightarrow> (Inr c, s\<lparr>credentialsCache := Some c\<rparr>)))"

text \<open>
  \<^verbatim>\<open>loadUserTokens\<close> returns a reference. With a non-empty cache and after a successful
  parse the returned object is the cached object itself; in the two "starting fresh" branches
  the cache and the returned value are two distinct empty objects.
\<close>

definition loadUserTokens :: "state \<Rightarrow> ref \<times> state" where
  "loadUserTokens s =
     (if heap s (userTokensCache s) \<noteq> [] then (userTokensCache s, s)
      else
        (case USER_TOKENS_PATH s of
           Content m \<Rightarrow>
             (let (r, s1) = alloc m s in (r, s1\<lparr>userTokensCache := r\<rparr>))
         | Unreadable msg \<Rightarrow>
             (let (r1, s1) = alloc [] s in alloc [] (s1\<lparr>userTokensCache := r1\<rparr>))
         | Missing \<Rightarrow>
             (let (r1, s1) = alloc [] s in alloc [] (s1\<lparr>userTokensCache := r1\<rparr>))))"

text \<open>
  \<^verbatim>\<open>fs.writeFileSync(USER_TOKENS_PATH, JSON.stringify(tokens, null, 2))\<close>. Whether the
  write succeeds is decided by the environment: the flag of \<open>wr\<close>, with the platform's message
  when it does not. A failed write leaves the file as it was.
\<close>

definition writeFileSync :: "bool \<times> string \<Rightarrow> tokens \<Rightarrow> state \<Rightarrow> error + state" where
  "writeFileSync wr v s =
     (if fst wr then Inr (s\<lparr>USER_TOKENS_PATH := Content v\<rparr>) else Inl (Error (snd wr)))"

text \<open>The \<^verbatim>\<open>catch\<close> of \<^verbatim>\<open>saveUserTokens\<close> logs the error and falls through.\<close>

definition saveUserTokens :: "ref \<Rightarrow> bool \<times> string \<Rightarrow> state \<Rightarrow> (error + unit) \<times> state" where
  "saveUserTokens tokens wr s =
     (case writeFileSync wr (heap s tokens) s of
        Inr s1 \<Rightarrow> (Inr (), s1\<lparr>userTokensCache := tokens\<rparr>)
      | Inl e \<Rightarrow> (Inr (), s))"

definition no_credentials :: Credentials where
  "no_credentials =
     \<lparr>access_token = Absent, refresh_token = Absent, expiry_date = Absent,
      scope = Absent, token_type = Absent\<rparr>"

definition destructure_error :: error where
  "destructure_error = Error ''Cannot destructure property of undefined''"

definition createOAuth2Client :: "state \<Rightarrow> (error + OAuth2Client) \<times> state" where
  "createOAuth2Client s =
     (case loadCredentials s of
        (Inl e, s1) \<Rightarrow> (Inl e, s1)
      | (Inr c, s1) \<Rightarrow>
          (case (case installed c of Some a \<Rightarrow> Some a | None \<Rightarrow> web c) of
             None \<Rightarrow> (Inl destructure_error, s1)
           | Some a \<Rightarrow>
               (Inr \<lparr>clientId = client_id a, clientSecret = client_secret a,
                     redirectUri = (case redirect_uris a of [] \<Rightarrow> None | u # _ \<Rightarrow> Some u),
                     credentials = no_credentials\<rparr>, s1)))"

definition setCredentials :: "Credentials \<Rightarrow> OAuth2Client \<Rightarrow> OAuth2Client" where
  "setCredentials c cl = cl\<lparr>credentials := c\<rparr>"

text \<open>Object spread \<^verbatim>\<open>{ ...old, ...new }\<close>: every key present in \<open>new\<close> overrides.\<close>

definition over :: "'a field \<Rightarrow> 'a field \<Rightarrow> 'a field" where
  "over old new = (case new of Absent \<Rightarrow> old | _ \<Rightarrow> new)"

definition spread :: "Credentials \<Rightarrow> Credentials \<Rightarrow> Credentials" where
  "spread old new =
     \<lparr>access_token = over (access_token old) (access_token new),
      refresh_token = over (refresh_token old) (refresh_token new),
      expiry_date = over (expiry_date old) (expiry_date new),
      scope = over (scope old) (scope new),
      token_type = over (token_type old) (token_type new)\<rparr>"

definition expiryBuffer :: int where
  "expiryBuffer = 5 * 60 * 1000"

text \<open>
  \<^verbatim>\<open>userToken.expiry_date && userToken.expiry_date < (Date.now() + expiryBuffer)\<close>:
  a missing, null or zero expiry is falsy.
\<close>

definition needs_refresh :: "Credentials \<Rightarrow> int \<Rightarrow> bool" where
  "needs_refresh userToken now =
     (case expiry_date userToken of
        Val e \<Rightarrow> e \<noteq> 0 \<and> e < now + expiryBuffer
      | _ \<Rightarrow> False)"

text \<open>
  What the environment decides during one call of \<^verbatim>\<open>getAuthenticatedClient\<close>: the clock,
  the answer of the authorization server to \<^verbatim>\<open>refreshAccessToken\<close> (an exception or the new
  partial credentials), and whether the write of the token file succeeds.
\<close>

record auth_env =
  now :: int
  refreshAccessToken :: "OAuth2Client \<Rightarrow> error + Credentials"
  write_result :: "bool \<times> string"

definition set_tokens :: "ref \<Rightarrow> tokens \<Rightarrow> state \<Rightarrow> state" where
  "set_tokens r v s = s\<lparr>heap := (heap s)(r := v)\<rparr>"

definition getAuthenticatedClient ::
  "auth_env \<Rightarrow> string \<Rightarrow> state \<Rightarrow> (error + OAuth2Client option) \<times> state" where
  "getAuthenticatedClient env userId s =
     (let (allTokens, s1) = loadUserTokens s in
      case map_of (heap s1 allTokens) userId of
        None \<Rightarrow> (Inr None, s1)
      | Some userToken \<Rightarrow>
          (case createOAuth2Client s1 of
             (Inl e, s2) \<Rightarrow> (Inl e, s2)
           | (Inr cl, s2) \<Rightarrow>
               (let oAuth2Client = setCredentials userToken cl in
                if needs_refresh userToken (now env) then
                  (case refreshAccessToken env oAuth2Client of
                     Inr creds \<Rightarrow>
                       (let updatedTokens = spread userToken creds;
                            s3 = set_tokens allTokens
                                   (AList.update userId updatedTokens (heap s2 allTokens)) s2;
                            s4 = snd (saveUserTokens allTokens (write_result env) s3)
                        in (Inr (Some (setCredentials updatedTokens oAuth2Client)), s4))
                   | Inl refreshError \<Rightarrow>
                       (let s3 = set_tokens allTokens
                                   (AList.delete userId (heap s2 allTokens)) s2;
                            s4 = snd (saveUserTokens allTokens (write_result env) s3)
                        in (Inr None, s4)))
                else (Inr (Some oAuth2Client), s2))))"

text \<open>A store lookup: \<^verbatim>\<open>loadUserTokens()[userId]\<close>.\<close>

definition lookup :: "string \<Rightarrow> state \<Rightarrow> Credentials option \<times> state" where
  "lookup userId s = (let (r, s1) = loadUserTokens s in (map_of (heap s1 r) userId, s1))"


section \<open>Availability search (tools/googleCalendarTools.ts)\<close>

text \<open>
  A \<^verbatim>\<open>Date\<close> is its time value in milliseconds since the epoch, or \<open>None\<close> for an Invalid
  Date, whose comparisons are all false. The platform's date parser is a parameter of the model.
\<close>

definition date_lt :: "int option \<Rightarrow> int option \<Rightarrow> bool" where
  "date_lt a b = (case a of None \<Rightarrow> False | Some x \<Rightarrow> (case b of None \<Rightarrow> False | Some y \<Rightarrow> x < y))"

text \<open>
  \<^verbatim>\<open>ensureRFC3339\<close> returns \<^verbatim>\<open>date.toISOString()\<close>; the ISO string is represented by the time
  value it denotes, which is what \<^verbatim>\<open>new Date(...)\<close> of that string gives back.
\<close>

definition ensureRFC3339 :: "(string \<Rightarrow> int option) \<Rightarrow> string \<Rightarrow> int option" where
  "ensureRFC3339 parse dateString = (if dateString = [] then None else parse dateString)"

record tool_context =
  startDate :: string
  endDate :: string
  duration :: int
  minStartHour :: "int option"
  maxEndHour :: "int option"
  userId :: string

text \<open>
  The zod schema of the tool: \<^verbatim>\<open>duration: z.number().min(1)\<close>, both hours
  \<^verbatim>\<open>z.number().min(0).max(23).optional()\<close>. Numbers are modelled as integers.
\<close>

definition hour_ok :: "int option \<Rightarrow> bool" where
  "hour_ok h = (case h of None \<Rightarrow> True | Some x \<Rightarrow> 0 \<le> x \<and> x \<le> 23)"

definition inputSchema :: "tool_context \<Rightarrow> bool" where
  "inputSchema ctx = (1 \<le> duration ctx \<and> hour_ok (minStartHour ctx) \<and> hour_ok (maxEndHour ctx))"

record event_time =
  dateTime :: "string option"
  date :: "string option"

record event =
  event_start :: "event_time option"
  event_end :: "event_time option"

text \<open>An entry of \<^verbatim>\<open>busyTimes\<close>: the two Dates built from the strings of an event.\<close>

record busy =
  busy_start :: "int option"
  busy_end :: "int option"

text \<open>
  An entry of \<^verbatim>\<open>availableSlots\<close>. The source stores \<^verbatim>\<open>toISOString()\<close> of two valid Dates;
  the strings are represented by the time values they denote.
\<close>

record slot =
  slot_start :: int
  slot_end :: int

text \<open>\<^verbatim>\<open>event.start?.dateTime || event.start?.date\<close>: an empty string is falsy too.\<close>

definition truthy :: "string option \<Rightarrow> string option" where
  "truthy x = (case x of None \<Rightarrow> None | Some v \<Rightarrow> if v = [] then None else Some v)"

definition time_string :: "event_time option \<Rightarrow> string option" where
  "time_string t =
     (case t of
        None \<Rightarrow> None
      | Some et \<Rightarrow> (case truthy (dateTime et) of Some v \<Rightarrow> Some v | None \<Rightarrow> truthy (date et)))"

definition to_busy :: "(string \<Rightarrow> int option) \<Rightarrow> event \<Rightarrow> busy option" where
  "to_busy parse ev =
     (case time_string (event_start ev) of
        None \<Rightarrow> None
      | Some startString \<Rightarrow>
          (case time_string (event_end ev) of
             None \<Rightarrow> None
           | Some endString \<Rightarrow>
               Some \<lparr>busy_start = parse startString, busy_end = parse endString\<rparr>))"

text \<open>
  Local time is UTC plus a fixed offset \<open>tz\<close> (no daylight-saving change inside the searched
  range). \<^verbatim>\<open>d.setHours(h, 0, 0, 0)\<close> is then the local midnight of \<open>d\<close>'s day plus \<open>h\<close> hours,
  and \<^verbatim>\<open>d.setDate(d.getDate() + 1)\<close> adds one day.
\<close>

definition setHours :: "int \<Rightarrow> int \<Rightarrow> int \<Rightarrow> int" where
  "setHours tz h t = t - (t + tz) mod 86400000 + h * 3600000"

definition nextDate :: "int \<Rightarrow> int" where
  "nextDate t = t + 86400000"

record search =
  tz :: int
  endDateTime :: int
  durationMs :: int
  minHour :: int
  maxHour :: int
  busyTimes :: "busy list"

definition overlapping :: "int \<Rightarrow> int \<Rightarrow> busy \<Rightarrow> bool" where
  "overlapping currentTime slotEndTime busySlot =
     (date_lt (Some currentTime) (busy_end busySlot) \<and>
      date_lt (busy_start busySlot) (Some slotEndTime))"

text \<open>The \<^verbatim>\<open>forEach\<close> that computes \<^verbatim>\<open>maxBusyEndTime\<close>, started at \<^verbatim>\<open>currentTime\<close>.\<close>

definition bump_end :: "int \<Rightarrow> int \<Rightarrow> busy \<Rightarrow> int \<Rightarrow> int" where
  "bump_end currentTime slotEndTime busySlot maxBusyEndTime =
     (if overlapping currentTime slotEndTime busySlot then
        (case busy_end busySlot of
           Some e \<Rightarrow> if maxBusyEndTime < e then e else maxBusyEndTime
         | None \<Rightarrow> maxBusyEndTime)
      else maxBusyEndTime)"

definition maxBusyEnd :: "int \<Rightarrow> int \<Rightarrow> busy list \<Rightarrow> int" where
  "maxBusyEnd currentTime slotEndTime bs =
     fold (bump_end currentTime slotEndTime) bs currentTime"

text \<open>One evaluation of the loop condition and body: the loop ends, or goes on with a new
  cursor and result list.\<close>

datatype iteration = Stop | Continue int "slot list"

definition step :: "search \<Rightarrow> int \<Rightarrow> slot list \<Rightarrow> iteration" where
  "step p currentTime availableSlots =
     (if currentTime < endDateTime p \<and> length availableSlots < 20 then
        (let slotEndTime = currentTime + durationMs p in
         if slotEndTime > endDateTime p then Stop
         else
           (let currentDayStart = setHours (tz p) (minHour p) currentTime;
                currentDayEnd = setHours (tz p) (maxHour p) currentTime
            in
              if currentTime < currentDayStart \<or> slotEndTime > currentDayEnd then
                (if currentTime < currentDayStart then Continue currentDayStart availableSlots
                 else Continue (nextDate currentDayStart) availableSlots)
              else if \<not> list_ex (overlapping currentTime slotEndTime) (busyTimes p) then
                Continue (currentTime + 15 * 60 * 1000)
                  (availableSlots @ [\<lparr>slot_start = currentTime, slot_end = slotEndTime\<rparr>])
              else
                Continue (maxBusyEnd currentTime slotEndTime (busyTimes p)) availableSlots))
      else Stop)"

partial_function (option) loop :: "search \<Rightarrow> int \<Rightarrow> slot list \<Rightarrow> slot list option" where
  "loop p currentTime availableSlots =
     (case step p currentTime availableSlots of
        Stop \<Rightarrow> Some availableSlots
      | Continue t a \<Rightarrow> loop p t a)"

declare loop.simps [code]

text \<open>
  The search proper: the loop started at \<^verbatim>\<open>startDateTime\<close> with no slots, then
  \<^verbatim>\<open>availableSlots.slice(0, 10)\<close>. \<open>None\<close> is a loop that never ends.
\<close>

definition findSlots :: "search \<Rightarrow> int \<Rightarrow> slot list option" where
  "findSlots p startDateTime =
     (case loop p startDateTime [] of
        None \<Rightarrow> None
      | Some availableSlots \<Rightarrow> Some (take 10 availableSlots))"

text \<open>
  What the environment decides during one run of the tool: the date parser, the local time
  zone, the environment of the credential manager, and the answer of the calendar service to
  \<^verbatim>\<open>events.list\<close> for the range \<open>timeMin\<close>, \<open>timeMax\<close>.
\<close>

record tool_env =
  parseDate :: "string \<Rightarrow> int option"
  tzOffset :: int
  auth :: auth_env
  eventsList :: "int \<Rightarrow> int \<Rightarrow> error + event list"

text \<open>The calls that leave the tool: to the credential store and to the network.\<close>

datatype call = GetCalendarService string | EventsList int int

definition getCalendarService ::
  "auth_env \<Rightarrow> string \<Rightarrow> state \<Rightarrow> (error + OAuth2Client option) \<times> state" where
  "getCalendarService env uid s = getAuthenticatedClient env uid s"

text \<open>The \<^verbatim>\<open>catch\<close> of \<^verbatim>\<open>execute\<close>: what it throws for a caught error.\<close>

definition rethrow :: "error \<Rightarrow> error" where
  "rethrow e =
     (if sublist ''Authentication required'' (message e) then e
      else Error (''Failed to find available slots: '' @ message e))"

definition default_to :: "int \<Rightarrow> int option \<Rightarrow> int" where
  "default_to d h = (case h of None \<Rightarrow> d | Some x \<Rightarrow> x)"

definition execute ::
  "tool_env \<Rightarrow> tool_context \<Rightarrow> state \<Rightarrow> ((error + slot list) \<times> state \<times> call list) option" where
  "execute env ctx s =
     (if userId ctx = [] then
        Some (Inl (Error ''Authentication error: User ID is required.''), s, [])
      else
        (case ensureRFC3339 (parseDate env) (startDate ctx) of
           None \<Rightarrow> Some (Inl (Error ''Invalid start or end date format provided. Use full ISO 8601 format with timezone.''), s, [])
         | Some startDateTime \<Rightarrow>
        (case ensureRFC3339 (parseDate env) (endDate ctx) of
           None \<Rightarrow> Some (Inl (Error ''Invalid start or end date format provided. Use full ISO 8601 format with timezone.''), s, [])
         | Some endDateTime' \<Rightarrow>
             if endDateTime' \<le> startDateTime then
               Some (Inl (Error ''End date must be after start date.''), s, [])
             else
               (case getCalendarService (auth env) (userId ctx) s of
                  (Inl e, s1) \<Rightarrow>
                    Some (Inl (rethrow e), s1, [GetCalendarService (userId ctx)])
                | (Inr None, s1) \<Rightarrow>
                    Some (Inl (rethrow (Error ''Google Authentication required. Please use /connect_google.'')),
                          s1, [GetCalendarService (userId ctx)])
                | (Inr (Some calendar), s1) \<Rightarrow>
                    (case eventsList env startDateTime endDateTime' of
                       Inl e \<Rightarrow>
                         Some (Inl (rethrow e), s1,
                               [GetCalendarService (userId ctx), EventsList startDateTime endDateTime'])
                     | Inr events \<Rightarrow>
                         (case findSlots
                                 \<lparr>tz = tzOffset env, endDateTime = endDateTime',
                                  durationMs = duration ctx * 60 * 1000,
                                  minHour = default_to 9 (minStartHour ctx),
                                  maxHour = default_to 17 (maxEndHour ctx),
                                  busyTimes = List.map_filter (to_busy (parseDate env)) events\<rparr>
                                 startDateTime of
                            None \<Rightarrow> None
                          | Some slots \<Rightarrow>
                              Some (Inr slots, s1,
                                    [GetCalendarService (userId ctx),
                                     EventsList startDateTime endDateTime'])))))))"

text \<open>The error of a context that fails the schema; its message is the framework's.\<close>

definition schema_error :: error where
  "schema_error = Error ''Tool validation failed''"

text \<open>
  Modelled from the spec: \<^verbatim>\<open>createTool\<close> belongs to the tool framework and is not part of
  the sources. The tool is taken to check the context against its \<^verbatim>\<open>inputSchema\<close> before it
  runs \<^verbatim>\<open>execute\<close>, which is the rejection of a malformed request "before any computation"
  that the specification describes.
\<close>

definition getCalendarAvailabilityTool ::
  "tool_env \<Rightarrow> tool_context \<Rightarrow> state \<Rightarrow> ((error + slot list) \<times> state \<times> call list) option" where
  "getCalendarAvailabilityTool env ctx s =
     (if inputSchema ctx then execute env ctx s else Some (Inl schema_error, s, []))"


section \<open>Properties of an accepted slot and of the loop state\<close>

text \<open>
  What the body of the loop has checked when it pushes a slot: the slot has the requested
  length, ends inside the range, lies inside the working hours of the day of its start, and
  overlaps no busy interval.
\<close>

definition free_slot :: "search \<Rightarrow> slot \<Rightarrow> bool" where
  "free_slot p S =
     (slot_end S = slot_start S + durationMs p \<and>
      slot_end S \<le> endDateTime p \<and>
      setHours (tz p) (minHour p) (slot_start S) \<le> slot_start S \<and>
      slot_end S \<le> setHours (tz p) (maxHour p) (slot_start S) \<and>
      \<not> list_ex (overlapping (slot_start S) (slot_end S)) (busyTimes p))"

text \<open>The slots found so far start in increasing order, all before the cursor.\<close>

definition ordered_before :: "int \<Rightarrow> slot list \<Rightarrow> bool" where
  "ordered_before t acc =
     (list_all (\<lambda>S. slot_start S < t) acc \<and> sorted_wrt (<) (map slot_start acc))"

section \<open>Concrete stores, environments and requests\<close>

definition stale_cred :: Credentials where
  "stale_cred =
     \<lparr>access_token = Val ''old'', refresh_token = Val ''rt'', expiry_date = Val 1000,
      scope = Absent, token_type = Val ''Bearer''\<rparr>"

definition app :: app_config where
  "app = \<lparr>client_id = ''id'', client_secret = ''secret'',
          redirect_uris = [''http://localhost'']\<rparr>"

definition conf :: config where
  "conf = \<lparr>installed = Some app, web = None\<rparr>"

text \<open>The module just loaded: an empty cache object, one user in the token file.\<close>

definition cold_state :: state where
  "cold_state =
     \<lparr>heap = (\<lambda>_. []), next_ref = 1, userTokensCache = 0, credentialsCache = None,
      USER_TOKENS_PATH = Content [(''u'', stale_cred)], CREDENTIALS_PATH = Content conf\<rparr>"

text \<open>The same with a token file that does not parse.\<close>

definition corrupt_state :: state where
  "corrupt_state =
     \<lparr>heap = (\<lambda>_. []), next_ref = 1, userTokensCache = 0, credentialsCache = None,
      USER_TOKENS_PATH = Unreadable ''Unexpected end of JSON input'',
      CREDENTIALS_PATH = Content conf\<rparr>"

text \<open>The same without the client configuration file.\<close>

definition unconfigured_state :: state where
  "unconfigured_state =
     \<lparr>heap = (\<lambda>_. []), next_ref = 1, userTokensCache = 0, credentialsCache = None,
      USER_TOKENS_PATH = Content [(''u'', stale_cred)], CREDENTIALS_PATH = Missing\<rparr>"

text \<open>A refresh response with a new access token and nothing else.\<close>

definition bare_response :: Credentials where
  "bare_response =
     \<lparr>access_token = Val ''new'', refresh_token = Absent, expiry_date = Absent,
      scope = Absent, token_type = Absent\<rparr>"

text \<open>A refresh response with a new access token and expiry, and no refresh token.\<close>

definition usual_response :: Credentials where
  "usual_response =
     \<lparr>access_token = Val ''new'', refresh_token = Absent, expiry_date = Val 3602000,
      scope = Absent, token_type = Absent\<rparr>"

definition env_bare :: auth_env where
  "env_bare =
     \<lparr>now = 2000, refreshAccessToken = (\<lambda>_. Inr bare_response), write_result = (True, [])\<rparr>"

definition env_usual :: auth_env where
  "env_usual =
     \<lparr>now = 2000, refreshAccessToken = (\<lambda>_. Inr usual_response), write_result = (True, [])\<rparr>"

text \<open>The authorization server rejects the refresh token and the disk is full.\<close>

definition env_rejected_disk_full :: auth_env where
  "env_rejected_disk_full =
     \<lparr>now = 2000, refreshAccessToken = (\<lambda>_. Inl (Error ''invalid_grant'')),
      write_result = (False, ''ENOSPC'')\<rparr>"

text \<open>
  Scenario A of the specification on 1 January 2024 (UTC): busy from 10:00 to 11:00 and from
  13:00 to 14:00, working hours 09:00 to 17:00, slots of 30 minutes.
\<close>

definition day0 :: int where
  "day0 = 1704067200000"

definition at_hm :: "int \<Rightarrow> int \<Rightarrow> int" where
  "at_hm h m = day0 + h * 3600000 + m * 60000"

definition parse_example :: "string \<Rightarrow> int option" where
  "parse_example str =
     (if str = ''2024-01-01T00:00:00Z'' then Some day0
      else if str = ''2024-01-02T00:00:00Z'' then Some (day0 + 86400000)
      else if str = ''2024-01-01T10:00:00Z'' then Some (at_hm 10 0)
      else if str = ''2024-01-01T11:00:00Z'' then Some (at_hm 11 0)
      else if str = ''2024-01-01T13:00:00Z'' then Some (at_hm 13 0)
      else if str = ''2024-01-01T14:00:00Z'' then Some (at_hm 14 0)
      else None)"

definition timed_event :: "string \<Rightarrow> string \<Rightarrow> event" where
  "timed_event a b =
     \<lparr>event_start = Some \<lparr>dateTime = Some a, date = None\<rparr>,
      event_end = Some \<lparr>dateTime = Some b, date = None\<rparr>\<rparr>"

definition env_A :: tool_env where
  "env_A =
     \<lparr>parseDate = parse_example, tzOffset = 0, auth = env_usual,
      eventsList = (\<lambda>_ _. Inr [timed_event ''2024-01-01T10:00:00Z'' ''2024-01-01T11:00:00Z'',
                                timed_event ''2024-01-01T13:00:00Z'' ''2024-01-01T14:00:00Z''])\<rparr>"

definition request_A :: tool_context where
  "request_A =
     \<lparr>startDate = ''2024-01-01T00:00:00Z'', endDate = ''2024-01-02T00:00:00Z'',
      duration = 30, minStartHour = None, maxEndHour = None, userId = ''u''\<rparr>"

definition search_A :: search where
  "search_A =
     \<lparr>tz = 0, endDateTime = day0 + 86400000, durationMs = 1800000, minHour = 9, maxHour = 17,
      busyTimes = [\<lparr>busy_start = Some (at_hm 10 0), busy_end = Some (at_hm 11 0)\<rparr>,
                   \<lparr>busy_start = Some (at_hm 13 0), busy_end = Some (at_hm 14 0)\<rparr>]\<rparr>"

definition slot_hm :: "int \<Rightarrow> int \<Rightarrow> slot" where
  "slot_hm h m = \<lparr>slot_start = at_hm h m, slot_end = at_hm h m + 1800000\<rparr>"

definition slots_A :: "slot list" where
  "slots_A =
     [slot_hm 9 0, slot_hm 9 15, slot_hm 9 30, slot_hm 11 0, slot_hm 11 15, slot_hm 11 30,
      slot_hm 11 45, slot_hm 12 0, slot_hm 12 15, slot_hm 12 30]"

text \<open>Requests that the specification calls malformed.\<close>

definition request_inverted_hours :: tool_context where
  "request_inverted_hours = request_A\<lparr>minStartHour := Some 17, maxEndHour := Some 9\<rparr>"

definition request_inverted_range :: tool_context where
  "request_inverted_range =
     request_A\<lparr>startDate := ''2024-01-02T00:00:00Z'', endDate := ''2024-01-01T00:00:00Z''\<rparr>"

text \<open>A search whose working day would start a day before midnight: outside the schema.\<close>

definition search_negative_hour :: search where
  "search_negative_hour =
     \<lparr>tz = 0, endDateTime = day0 + 86400000, durationMs = 1800000, minHour = - 24, maxHour = 0,
      busyTimes = []\<rparr>"

definition request_no_duration :: tool_context where
  "request_no_duration = request_A\<lparr>duration := 0\<rparr>"

section \<open>Facts about the credential store\<close>

lemma loadUserTokens_alias:
  assumes "loadUserTokens s = (r, s1)" and "heap s1 r \<noteq> []"
  shows "userTokensCache s1 = r"
  using assms
  by (auto simp: loadUserTokens_def alloc_def Let_def split: if_splits fs_file.splits)

lemma createOAuth2Client_tokens:
  assumes "createOAuth2Client s = (res, s')"
  shows "heap s' = heap s \<and> userTokensCache s' = userTokensCache s \<and>
         USER_TOKENS_PATH s' = USER_TOKENS_PATH s"
  using assms
  by (auto simp: createOAuth2Client_def loadCredentials_def
      split: option.splits fs_file.splits prod.splits sum.splits)



lemmas store_defs =
  getAuthenticatedClient_def loadUserTokens_def alloc_def createOAuth2Client_def
  loadCredentials_def setCredentials_def needs_refresh_def expiryBuffer_def set_tokens_def
  saveUserTokens_def writeFileSync_def spread_def over_def lookup_def no_credentials_def Let_def

lemmas example_defs =
  stale_cred_def app_def conf_def cold_state_def corrupt_state_def unconfigured_state_def
  bare_response_def usual_response_def env_bare_def env_usual_def env_rejected_disk_full_def


text \<open>
  After a refresh that succeeds, the merged credential is the one in the client, in the
  store as the process sees it, and in the token file when the write went through.
\<close>

lemma refresh_success:
  assumes stored: "fst (lookup uid s) = Some C"
      and stale: "needs_refresh C (now env)"
      and conf: "fst (createOAuth2Client (snd (loadUserTokens s))) = Inr cl0"
      and resp: "refreshAccessToken env (setCredentials C cl0) = Inr R"
  shows "\<exists>cl s'. getAuthenticatedClient env uid s = (Inr (Some cl), s') \<and>
           credentials cl = spread C R \<and>
           fst (lookup uid s') = Some (spread C R) \<and>
           (if fst (write_result env)
            then \<exists>m. USER_TOKENS_PATH s' = Content m \<and> map_of m uid = Some (spread C R)
            else USER_TOKENS_PATH s' = USER_TOKENS_PATH (snd (loadUserTokens s)))"
proof -
  obtain r s1 where l: "loadUserTokens s = (r, s1)" by (cases "loadUserTokens s")
  from stored l have C: "map_of (heap s1 r) uid = Some C" by (simp add: lookup_def)
  then have ne: "heap s1 r \<noteq> []" by auto
  have al: "userTokensCache s1 = r" using loadUserTokens_alias [OF l ne] .
  obtain s2 where c: "createOAuth2Client s1 = (Inr cl0, s2)"
    using conf l by (cases "createOAuth2Client s1") auto
  note k = createOAuth2Client_tokens [OF c]
  define M where "M = spread C R"
  define s3 where "s3 = set_tokens r (AList.update uid M (heap s2 r)) s2"
  define s4 where "s4 = snd (saveUserTokens r (write_result env) s3)"
  have g: "getAuthenticatedClient env uid s =
             (Inr (Some (setCredentials M (setCredentials C cl0))), s4)"
    using l C c stale resp
    by (simp add: getAuthenticatedClient_def Let_def M_def s3_def s4_def)
  have h3: "heap s3 r = AList.update uid M (heap s1 r)" "userTokensCache s3 = r"
    "USER_TOKENS_PATH s3 = USER_TOKENS_PATH s1"
    using k al by (simp_all add: s3_def set_tokens_def)
  have h4: "heap s4 r = AList.update uid M (heap s1 r)" "userTokensCache s4 = r"
    using h3 by (simp_all add: s4_def saveUserTokens_def writeFileSync_def)
  have mo: "map_of (AList.update uid M (heap s1 r)) uid = Some M"
    by (simp add: update_conv')
  have ne4: "heap s4 r \<noteq> []" using h4 mo by auto
  have lk: "fst (lookup uid s4) = Some M"
    using h4 mo ne4 by (simp add: lookup_def loadUserTokens_def)
  have disk: "if fst (write_result env)
      then \<exists>m. USER_TOKENS_PATH s4 = Content m \<and> map_of m uid = Some M
      else USER_TOKENS_PATH s4 = USER_TOKENS_PATH (snd (loadUserTokens s))"
    using h3 mo l by (simp add: s4_def saveUserTokens_def writeFileSync_def)
  have cr: "credentials (setCredentials M (setCredentials C cl0)) = M"
    by (simp add: setCredentials_def)
  show ?thesis using g cr lk disk unfolding M_def by blast
qed

text \<open>
  After a refresh that fails, the function returns absent; a later lookup finds nothing as
  long as the write went through or another user is still in the cache.
\<close>

lemma refresh_failure:
  assumes stored: "fst (lookup uid s) = Some C"
      and stale: "needs_refresh C (now env)"
      and conf: "fst (createOAuth2Client (snd (loadUserTokens s))) = Inr cl0"
      and resp: "refreshAccessToken env (setCredentials C cl0) = Inl e"
      and safe: "fst (write_result env) \<or> (\<exists>v D. v \<noteq> uid \<and> fst (lookup v s) = Some D)"
  shows "\<exists>s'. getAuthenticatedClient env uid s = (Inr None, s') \<and>
           fst (lookup uid s') = None"
proof -
  obtain r s1 where l: "loadUserTokens s = (r, s1)" by (cases "loadUserTokens s")
  from stored l have C: "map_of (heap s1 r) uid = Some C" by (simp add: lookup_def)
  then have ne: "heap s1 r \<noteq> []" by auto
  have al: "userTokensCache s1 = r" using loadUserTokens_alias [OF l ne] .
  obtain s2 where c: "createOAuth2Client s1 = (Inr cl0, s2)"
    using conf l by (cases "createOAuth2Client s1") auto
  note k = createOAuth2Client_tokens [OF c]
  define s3 where "s3 = set_tokens r (AList.delete uid (heap s2 r)) s2"
  define s4 where "s4 = snd (saveUserTokens r (write_result env) s3)"
  have g: "getAuthenticatedClient env uid s = (Inr None, s4)"
    using l C c stale resp
    by (simp add: getAuthenticatedClient_def Let_def s3_def s4_def)
  have h3: "heap s3 r = AList.delete uid (heap s1 r)" "userTokensCache s3 = r"
    using k al by (simp_all add: s3_def set_tokens_def)
  have h4: "heap s4 r = AList.delete uid (heap s1 r)" "userTokensCache s4 = r"
    using h3 by (simp_all add: s4_def saveUserTokens_def writeFileSync_def)
  have gone: "map_of (AList.delete uid (heap s1 r)) uid = None"
    by (simp add: delete_conv')
  have "fst (lookup uid s4) = None"
  proof (cases "heap s4 r = []")
    case False
    then show ?thesis using h4 gone by (simp add: lookup_def loadUserTokens_def)
  next
    case True
    have w: "fst (write_result env)"
    proof (rule ccontr)
      assume nw: "\<not> fst (write_result env)"
      with safe obtain v D where v: "v \<noteq> uid" "fst (lookup v s) = Some D" by blast
      then have "map_of (heap s1 r) v = Some D" using l by (simp add: lookup_def)
      then have "map_of (AList.delete uid (heap s1 r)) v = Some D"
        using v(1) by (simp add: delete_conv')
      then show False using True h4 by simp
    qed
    have "USER_TOKENS_PATH s4 = Content []"
      using w h3 h4 True by (simp add: s4_def saveUserTokens_def writeFileSync_def)
    then show ?thesis
      using True h4 by (simp add: lookup_def loadUserTokens_def alloc_def)
  qed
  with g show ?thesis by blast
qed

section \<open>Claims about the credential lifecycle\<close>




text \<open>
  C2. When the stored credential \<open>C\<close> is due for a refresh and the refresh answers \<open>R\<close>,
  the function returns a client; the credential in that client, the credential a later lookup
  finds and, when the write succeeds, the credential in the token file are all \<open>C\<close>
  overridden by \<open>R\<close>, in which every field that \<open>R\<close> lacks has its value from \<open>C\<close>: the
  refresh token in particular.
\<close>

theorem refresh_merge_keeps_absent_fields:
  assumes "fst (lookup uid s) = Some C"
      and "needs_refresh C (now env)"
      and "fst (createOAuth2Client (snd (loadUserTokens s))) = Inr cl0"
      and "refreshAccessToken env (setCredentials C cl0) = Inr R"
  shows "\<exists>cl s' M. getAuthenticatedClient env uid s = (Inr (Some cl), s') \<and>
           credentials cl = M \<and>
           fst (lookup uid s') = Some M \<and>
           (if fst (write_result env)
            then \<exists>m. USER_TOKENS_PATH s' = Content m \<and> map_of m uid = Some M
            else USER_TOKENS_PATH s' = USER_TOKENS_PATH (snd (loadUserTokens s))) \<and>
           (if refresh_token R = Absent then refresh_token M = refresh_token C
            else refresh_token M = refresh_token R) \<and>
           (if access_token R = Absent then access_token M = access_token C
            else access_token M = access_token R) \<and>
           (if expiry_date R = Absent then expiry_date M = expiry_date C
            else expiry_date M = expiry_date R) \<and>
           (if scope R = Absent then scope M = scope C else scope M = scope R) \<and>
           (if token_type R = Absent then token_type M = token_type C
            else token_type M = token_type R)"
proof -
  from refresh_success [OF assms] obtain cl s' where
    a: "getAuthenticatedClient env uid s = (Inr (Some cl), s')"
       "credentials cl = spread C R" "fst (lookup uid s') = Some (spread C R)"
       "if fst (write_result env)
        then \<exists>m. USER_TOKENS_PATH s' = Content m \<and> map_of m uid = Some (spread C R)
        else USER_TOKENS_PATH s' = USER_TOKENS_PATH (snd (loadUserTokens s))"
    by blast
  have f: "(if refresh_token R = Absent then refresh_token (spread C R) = refresh_token C
            else refresh_token (spread C R) = refresh_token R) \<and>
           (if access_token R = Absent then access_token (spread C R) = access_token C
            else access_token (spread C R) = access_token R) \<and>
           (if expiry_date R = Absent then expiry_date (spread C R) = expiry_date C
            else expiry_date (spread C R) = expiry_date R) \<and>
           (if scope R = Absent then scope (spread C R) = scope C
            else scope (spread C R) = scope R) \<and>
           (if token_type R = Absent then token_type (spread C R) = token_type C
            else token_type (spread C R) = token_type R)"
    by (simp add: spread_def over_def split: field.splits)
  from a f show ?thesis by blast
qed

theorem refresh_merge_keeps_absent_fields_witness:
  "fst (lookup ''u'' cold_state) = Some stale_cred \<and>
   needs_refresh stale_cred (now env_usual) \<and>
   refresh_token usual_response = Absent \<and>
   (\<exists>cl s' M. getAuthenticatedClient env_usual ''u'' cold_state = (Inr (Some cl), s') \<and>
      credentials cl = M \<and> fst (lookup ''u'' s') = Some M \<and>
      (\<exists>m. USER_TOKENS_PATH s' = Content m \<and> map_of m ''u'' = Some M) \<and>
      refresh_token M = Val ''rt'' \<and> access_token M = Val ''new'' \<and>
      expiry_date M = Val 3602000)"
proof -
  have l: "fst (lookup ''u'' cold_state) = Some stale_cred"
    by (simp add: example_defs store_defs)
  have n: "needs_refresh stale_cred (now env_usual)"
    by (simp add: example_defs store_defs)
  have c: "fst (createOAuth2Client (snd (loadUserTokens cold_state))) =
             Inr \<lparr>clientId = ''id'', clientSecret = ''secret'',
                  redirectUri = Some ''http://localhost'', credentials = no_credentials\<rparr>"
    by (simp add: example_defs store_defs)
  have r: "\<And>c. refreshAccessToken env_usual c = Inr usual_response"
    by (simp add: env_usual_def)
  have v: "refresh_token usual_response = Absent" "access_token usual_response = Val ''new''"
    "expiry_date usual_response = Val 3602000" "refresh_token stale_cred = Val ''rt''"
    "fst (write_result env_usual)"
    by (simp_all add: example_defs)
  from refresh_merge_keeps_absent_fields [OF l n c r] v l n show ?thesis
    by (auto split: if_splits)
qed

text \<open>
  C3 fails on the code at this input: one user in the store, the refresh is rejected, and
  the write of the token file fails too. The function returns absent, but the cache object
  is now empty, which \<^verbatim>\<open>loadUserTokens\<close> takes for a cache never loaded: the next lookup reads
  the unchanged file again and finds the credential that was to be deleted.
\<close>

theorem refresh_failure_credential_survives:
  "fst (getAuthenticatedClient env_rejected_disk_full ''u'' cold_state) = Inr None \<and>
   fst (lookup ''u'' (snd (getAuthenticatedClient env_rejected_disk_full ''u'' cold_state))) =
     Some stale_cred"
  by (simp add: example_defs store_defs)

text \<open>
  C4 (as amended). When the write fails, \<^verbatim>\<open>saveUserTokens\<close> catches the error and returns
  normally: nothing is propagated to the caller. The call itself leaves the token file, the
  cache variable and every stored object as they were.
\<close>

theorem save_failure_swallowed:
  "saveUserTokens r (False, msg) s = (Inr (), s)"
  by (simp add: saveUserTokens_def writeFileSync_def)

text \<open>
  C4 as written fails: with a full disk the write throws, and the call still returns
  normally instead of failing.
\<close>

theorem save_failure_not_propagated:
  "writeFileSync (False, ''ENOSPC'') (heap cold_state 0) cold_state = Inl (Error ''ENOSPC'') \<and>
   fst (saveUserTokens 0 (False, ''ENOSPC'') cold_state) = Inr ()"
  by (simp add: saveUserTokens_def writeFileSync_def)




section \<open>Facts about the availability loop\<close>

lemma fold_bump_ge: "m \<le> fold (bump_end t e) bs m"
proof (induction bs arbitrary: m)
  case Nil
  show ?case by simp
next
  case (Cons b bs)
  have "m \<le> bump_end t e b m" by (simp add: bump_end_def split: option.splits)
  also have "\<dots> \<le> fold (bump_end t e) bs (bump_end t e b m)" by (rule Cons.IH)
  finally show ?case by simp
qed

lemma fold_bump_gt:
  assumes "list_ex (overlapping t e) bs" and "t \<le> m"
  shows "t < fold (bump_end t e) bs m"
  using assms
proof (induction bs arbitrary: m)
  case Nil
  then show ?case by simp
next
  case (Cons b bs)
  have ge: "m \<le> bump_end t e b m" by (simp add: bump_end_def split: option.splits)
  show ?case
  proof (cases "overlapping t e b")
    case True
    then obtain x where x: "busy_end b = Some x" "t < x"
      by (auto simp: overlapping_def date_lt_def split: option.splits)
    with True have "t < bump_end t e b m" using Cons.prems(2) by (simp add: bump_end_def)
    also have "\<dots> \<le> fold (bump_end t e) bs (bump_end t e b m)" by (rule fold_bump_ge)
    finally show ?thesis by simp
  next
    case False
    with Cons.prems have "list_ex (overlapping t e) bs" by simp
    moreover have "t \<le> bump_end t e b m" using ge Cons.prems(2) by linarith
    ultimately have "t < fold (bump_end t e) bs (bump_end t e b m)" by (rule Cons.IH)
    then show ?thesis by simp
  qed
qed

lemma maxBusyEnd_gt: "list_ex (overlapping t e) bs \<Longrightarrow> t < maxBusyEnd t e bs"
  unfolding maxBusyEnd_def by (rule fold_bump_gt) simp_all

lemma nextDate_gt:
  assumes "0 \<le> h"
  shows "t < nextDate (setHours z h t)"
proof -
  have "(t + z) mod 86400000 < 86400000" by simp
  moreover have "0 \<le> h * 3600000" using assms by simp
  ultimately show ?thesis unfolding nextDate_def setHours_def by linarith
qed

text \<open>The four ways an iteration goes on.\<close>

lemma step_cases:
  assumes "step p t acc = Continue t' acc'"
  shows "t < endDateTime p \<and> length acc < 20 \<and> t + durationMs p \<le> endDateTime p \<and>
    ((t < setHours (tz p) (minHour p) t \<and> t' = setHours (tz p) (minHour p) t \<and> acc' = acc) \<or>
     (setHours (tz p) (minHour p) t \<le> t \<and> t' = nextDate (setHours (tz p) (minHour p) t) \<and>
        acc' = acc) \<or>
     (free_slot p \<lparr>slot_start = t, slot_end = t + durationMs p\<rparr> \<and>
        t' = t + 15 * 60 * 1000 \<and>
        acc' = acc @ [\<lparr>slot_start = t, slot_end = t + durationMs p\<rparr>]) \<or>
     (list_ex (overlapping t (t + durationMs p)) (busyTimes p) \<and>
        t' = maxBusyEnd t (t + durationMs p) (busyTimes p) \<and> acc' = acc))"
  using assms
  by (auto simp: step_def Let_def free_slot_def split: if_splits)

lemma step_slots:
  assumes "step p t acc = Continue t' acc'"
  shows "acc' = acc \<or>
         (acc' = acc @ [\<lparr>slot_start = t, slot_end = t + durationMs p\<rparr>] \<and>
          free_slot p \<lparr>slot_start = t, slot_end = t + durationMs p\<rparr>)"
  using step_cases [OF assms] by blast

lemma step_cursor:
  assumes "step p t acc = Continue t' acc'" and "0 \<le> minHour p"
  shows "t < t' \<and> t < endDateTime p"
proof -
  note c = step_cases [OF assms(1)]
  have "t < nextDate (setHours (tz p) (minHour p) t)" by (rule nextDate_gt [OF assms(2)])
  moreover have "list_ex (overlapping t (t + durationMs p)) (busyTimes p) \<Longrightarrow>
      t < maxBusyEnd t (t + durationMs p) (busyTimes p)" by (rule maxBusyEnd_gt)
  ultimately show ?thesis using c by auto
qed

lemma step_free:
  assumes "step p t acc = Continue t' acc'" and "list_all (free_slot p) acc"
  shows "list_all (free_slot p) acc'"
  using step_slots [OF assms(1)] assms(2) by auto

lemma step_ordered:
  assumes "step p t acc = Continue t' acc'" and "0 \<le> minHour p" and "ordered_before t acc"
  shows "ordered_before t' acc'"
proof -
  from step_cursor [OF assms(1,2)] have lt: "t < t'" by simp
  have up: "list_all (\<lambda>S. slot_start S < t') acc"
    using assms(3) lt by (auto simp: ordered_before_def list_all_iff)
  from step_slots [OF assms(1)] show ?thesis
  proof
    assume "acc' = acc"
    with assms(3) up show ?thesis by (simp add: ordered_before_def)
  next
    assume a: "acc' = acc @ [\<lparr>slot_start = t, slot_end = t + durationMs p\<rparr>] \<and>
           free_slot p \<lparr>slot_start = t, slot_end = t + durationMs p\<rparr>"
    have "sorted_wrt (<) (map slot_start acc @ [t])"
      using assms(3) by (auto simp: ordered_before_def sorted_wrt_append list_all_iff)
    with a up lt show ?thesis by (simp add: ordered_before_def)
  qed
qed

text \<open>
  Termination: with a working day that does not start before midnight, every iteration that
  goes on moves the cursor forward, and it goes on only below the end of the range.
\<close>

lemma loop_terminates:
  assumes "0 \<le> minHour p"
  shows "\<exists>r. loop p t acc = Some r"
proof (induction "nat (endDateTime p - t)" arbitrary: t acc rule: less_induct)
  case less
  show ?case
  proof (cases "step p t acc")
    case Stop
    then have "loop p t acc = Some acc" by (subst loop.simps) simp
    then show ?thesis by blast
  next
    case (Continue t' acc')
    from step_cursor [OF Continue assms] have "t < t'" "t < endDateTime p" by simp_all
    then have "nat (endDateTime p - t') < nat (endDateTime p - t)" by linarith
    then obtain r where "loop p t' acc' = Some r" using less.hyps by blast
    moreover have "loop p t acc = loop p t' acc'" using Continue by (subst loop.simps) simp
    ultimately show ?thesis by simp
  qed
qed

text \<open>Partial correctness, by the induction rule of the least fixed point.\<close>

lemma loop_free:
  assumes "loop p t acc = Some r" and "list_all (free_slot p) acc"
  shows "list_all (free_slot p) r"
proof -
  from assms(1) have "list_all (free_slot p) acc \<longrightarrow> list_all (free_slot p) r"
  proof (induction rule: loop.raw_induct [rotated 1, consumes 1])
    case (1 loop' p t acc r)
    show ?case
    proof (cases "step p t acc")
      case Stop
      with 1(2) show ?thesis by simp
    next
      case (Continue t' acc')
      with 1(2) have "loop' p t' acc' = Some r" by simp
      from 1(1) [OF this] step_free [OF Continue] show ?thesis by blast
    qed
  qed
  with assms show ?thesis by blast
qed

lemma loop_ordered:
  assumes "loop p t acc = Some r" and "0 \<le> minHour p" and "ordered_before t acc"
  shows "sorted_wrt (<) (map slot_start r)"
proof -
  from assms(1) have
    "0 \<le> minHour p \<and> ordered_before t acc \<longrightarrow> sorted_wrt (<) (map slot_start r)"
  proof (induction rule: loop.raw_induct [rotated 1, consumes 1])
    case (1 loop' p t acc r)
    show ?case
    proof (cases "step p t acc")
      case Stop
      with 1(2) show ?thesis by (auto simp: ordered_before_def)
    next
      case (Continue t' acc')
      with 1(2) have "loop' p t' acc' = Some r" by simp
      from 1(1) [OF this] step_ordered [OF Continue] show ?thesis by blast
    qed
  qed
  with assms show ?thesis by blast
qed

lemma findSlots_free:
  assumes "findSlots p t = Some slots" and "S \<in> set slots"
  shows "free_slot p S"
proof -
  from assms(1) obtain r where r: "loop p t [] = Some r" "slots = take 10 r"
    by (auto simp: findSlots_def split: option.splits)
  have "list_all (free_slot p) r" using loop_free [OF r(1)] by simp
  moreover have "S \<in> set r" using assms(2) r(2) by (auto dest: in_set_takeD)
  ultimately show ?thesis by (simp add: list_all_iff)
qed

lemma findSlots_ordered:
  assumes "findSlots p t = Some slots" and "0 \<le> minHour p"
  shows "length slots \<le> 10 \<and> sorted_wrt (<) (map slot_start slots)"
proof -
  from assms(1) obtain r where r: "loop p t [] = Some r" "slots = take 10 r"
    by (auto simp: findSlots_def split: option.splits)
  have "sorted_wrt (<) (map slot_start r)"
    using loop_ordered [OF r(1) assms(2)] by (simp add: ordered_before_def)
  then have "sorted_wrt (<) (take 10 (map slot_start r))" by (rule sorted_wrt_take)
  with r(2) show ?thesis by (simp add: take_map)
qed

lemma findSlots_returns:
  assumes "0 \<le> minHour p"
  shows "\<exists>slots. findSlots p t = Some slots"
  using loop_terminates [OF assms, of t "[]"] by (auto simp: findSlots_def)

text \<open>The tool passes a search with the hours of the request, or 9 and 17.\<close>

lemma schema_minHour: "inputSchema ctx \<Longrightarrow> 0 \<le> default_to 9 (minStartHour ctx)"
  by (auto simp: inputSchema_def hour_ok_def default_to_def split: option.splits)

lemma tool_slots:
  assumes "map_option fst (getCalendarAvailabilityTool env ctx s) = Some (Inr slots)"
  shows "inputSchema ctx \<and>
         (\<exists>p a. findSlots p a = Some slots \<and> minHour p = default_to 9 (minStartHour ctx) \<and>
            maxHour p = default_to 17 (maxEndHour ctx) \<and> tz p = tzOffset env \<and>
            durationMs p = duration ctx * 60 * 1000 \<and>
            ensureRFC3339 (parseDate env) (startDate ctx) = Some a \<and>
            ensureRFC3339 (parseDate env) (endDate ctx) = Some (endDateTime p) \<and>
            (\<exists>events. eventsList env a (endDateTime p) = Inr events \<and>
               busyTimes p = List.map_filter (to_busy (parseDate env)) events))"
  using assms
  by (auto simp: getCalendarAvailabilityTool_def execute_def
      split: if_splits option.splits prod.splits sum.splits)

lemma tool_returns: "\<exists>res. getCalendarAvailabilityTool env ctx s = Some res"
proof (cases "inputSchema ctx")
  case False
  then show ?thesis by (simp add: getCalendarAvailabilityTool_def)
next
  case True
  have "\<exists>slots. findSlots \<lparr>tz = z, endDateTime = b, durationMs = d,
           minHour = default_to 9 (minStartHour ctx), maxHour = h, busyTimes = bs\<rparr> a = Some slots"
    for z b d h bs a
    by (rule findSlots_returns) (simp add: schema_minHour [OF True])
  then have "\<exists>res. execute env ctx s = Some res"
    unfolding execute_def
    by (auto split: option.splits prod.splits sum.splits) (metis option.distinct(1))+
  with True show ?thesis by (simp add: getCalendarAvailabilityTool_def)
qed

lemma inverted_hours_no_slots:
  assumes "findSlots p t = Some slots" and "maxHour p \<le> minHour p" and "0 < durationMs p"
  shows "slots = []"
proof (rule ccontr)
  assume "slots \<noteq> []"
  then obtain S where "S \<in> set slots" by (cases slots) auto
  from findSlots_free [OF assms(1) this]
  have "setHours (tz p) (minHour p) (slot_start S) + durationMs p
          \<le> setHours (tz p) (maxHour p) (slot_start S)"
    by (simp add: free_slot_def)
  moreover have "maxHour p * 3600000 \<le> minHour p * 3600000" using assms(2) by simp
  ultimately show False using assms(3) by (simp add: setHours_def)
qed

lemma tool_slots_ordered:
  assumes "map_option fst (getCalendarAvailabilityTool env ctx s) = Some (Inr slots)"
  shows "length slots \<le> 10 \<and> sorted_wrt (<) (map slot_start slots)"
proof -
  from tool_slots [OF assms] obtain p a where
    "inputSchema ctx" "findSlots p a = Some slots" "minHour p = default_to 9 (minStartHour ctx)"
    by blast
  then show ?thesis using findSlots_ordered [of p a slots] schema_minHour [of ctx] by simp
qed

text \<open>
  Outside the schema the loop can hang: with a working day that starts 24 hours before
  midnight the jump to "tomorrow's window start" lands on the cursor itself.
\<close>

lemma step_stuck_negative_hour:
  "step search_negative_hour day0 [] = Continue day0 []"
  by (simp add: search_negative_hour_def step_def setHours_def nextDate_def day0_def Let_def)

lemma loop_not_from_stuck:
  assumes "loop p t acc = Some r"
  shows "\<not> (p = search_negative_hour \<and> t = day0 \<and> acc = [])"
  using assms
proof (induction rule: loop.raw_induct [rotated 1, consumes 1])
  case (1 loop' p t acc r)
  show ?case
  proof
    assume a: "p = search_negative_hour \<and> t = day0 \<and> acc = []"
    with 1(2) step_stuck_negative_hour have "loop' p t acc = Some r" by simp
    from 1(1) [OF this] a show False by simp
  qed
qed

lemma loop_hangs_negative_hour: "loop search_negative_hour day0 [] = None"
proof (cases "loop search_negative_hour day0 []")
  case None
  then show ?thesis .
next
  case (Some r)
  from loop_not_from_stuck [OF Some] show ?thesis by simp
qed

section \<open>Claims about the availability search\<close>

text \<open>
  C5. Every slot \<open>S\<close> that the search returns and every busy interval \<open>B\<close> it was given
  satisfy NOT (S.start < B.end AND S.end > B.start).
\<close>

theorem slots_avoid_busy:
  assumes "findSlots p t = Some slots" and "S \<in> set slots" and "B \<in> set (busyTimes p)"
  shows "\<not> (date_lt (Some (slot_start S)) (busy_end B) \<and>
            date_lt (busy_start B) (Some (slot_end S)))"
proof -
  from findSlots_free [OF assms(1,2)]
  have "\<not> list_ex (overlapping (slot_start S) (slot_end S)) (busyTimes p)"
    unfolding free_slot_def by blast
  with assms(3) have "\<not> overlapping (slot_start S) (slot_end S) B"
    by (auto simp: list_ex_iff)
  then show ?thesis by (simp add: overlapping_def)
qed

theorem slots_avoid_busy_witness:
  "findSlots search_A day0 = Some slots_A \<and>
   slot_hm 9 30 \<in> set slots_A \<and>
   \<lparr>busy_start = Some (at_hm 10 0), busy_end = Some (at_hm 11 0)\<rparr> \<in> set (busyTimes search_A) \<and>
   \<not> (date_lt (Some (slot_start (slot_hm 9 30))) (Some (at_hm 11 0)) \<and>
      date_lt (Some (at_hm 10 0)) (Some (slot_end (slot_hm 9 30))))"
proof -
  have f: "findSlots search_A day0 = Some slots_A" by code_simp
  have s: "slot_hm 9 30 \<in> set slots_A" by (simp add: slots_A_def)
  have b: "\<lparr>busy_start = Some (at_hm 10 0), busy_end = Some (at_hm 11 0)\<rparr>
             \<in> set (busyTimes search_A)"
    by (simp add: search_A_def)
  from slots_avoid_busy [OF f s b] f s b show ?thesis by simp
qed

text \<open>
  C6. Every slot that the search returns starts no earlier than the start of the working
  hours on the calendar day of its start, and ends no later than the end of the working hours
  on that same day; its length is the requested duration.
\<close>

theorem slots_within_working_hours:
  assumes "findSlots p t = Some slots" and "S \<in> set slots"
  shows "setHours (tz p) (minHour p) (slot_start S) \<le> slot_start S \<and>
         slot_end S \<le> setHours (tz p) (maxHour p) (slot_start S) \<and>
         slot_end S = slot_start S + durationMs p"
  using findSlots_free [OF assms] unfolding free_slot_def by blast

theorem slots_within_working_hours_witness:
  "findSlots search_A day0 = Some slots_A \<and>
   slot_hm 12 30 \<in> set slots_A \<and>
   setHours 0 9 (slot_start (slot_hm 12 30)) = at_hm 9 0 \<and>
   at_hm 9 0 \<le> slot_start (slot_hm 12 30) \<and>
   setHours 0 17 (slot_start (slot_hm 12 30)) = at_hm 17 0 \<and>
   slot_end (slot_hm 12 30) \<le> at_hm 17 0"
proof -
  have f: "findSlots search_A day0 = Some slots_A" by code_simp
  have s: "slot_hm 12 30 \<in> set slots_A" by (simp add: slots_A_def)
  have a: "setHours 0 9 (slot_start (slot_hm 12 30)) = at_hm 9 0"
    "setHours 0 17 (slot_start (slot_hm 12 30)) = at_hm 17 0"
    by (simp_all add: setHours_def slot_hm_def at_hm_def day0_def)
  have p: "tz search_A = 0" "minHour search_A = 9" "maxHour search_A = 17"
    by (simp_all add: search_A_def)
  from slots_within_working_hours [OF f s] f s a p show ?thesis by simp
qed

text \<open>
  C7. For every search whose working hours start at hour 0 or later, as the schema of the
  tool guarantees, and for every list of busy intervals, the search returns a sequence of at
  most 10 slots whose start times are strictly increasing.
\<close>

theorem slots_capped_and_ordered:
  assumes "0 \<le> minHour p"
  shows "\<exists>slots. findSlots p t = Some slots \<and> length slots \<le> 10 \<and>
           sorted_wrt (<) (map slot_start slots)"
proof -
  from findSlots_returns [OF assms] obtain slots where f: "findSlots p t = Some slots"
    by blast
  from findSlots_ordered [OF f assms] f show ?thesis by blast
qed

theorem slots_capped_and_ordered_witness:
  "0 \<le> minHour search_A \<and>
   findSlots search_A day0 = Some slots_A \<and> length slots_A = 10 \<and>
   sorted_wrt (<) (map slot_start slots_A)"
proof -
  have m: "0 \<le> minHour search_A" by (simp add: search_A_def)
  have f: "findSlots search_A day0 = Some slots_A" by code_simp
  have l: "length slots_A = 10" by (simp add: slots_A_def)
  from slots_capped_and_ordered [OF m, of day0] m f l show ?thesis by auto
qed

text \<open>
  C8 (as amended). A request with a duration below 1, or whose end date is not after its
  start date, is rejected with an error before anything else happens: the store is as it
  was and no call has left the tool. (A request whose working hours are inverted is not
  rejected.)
\<close>

theorem malformed_request_rejected:
  assumes "duration ctx \<le> 0 \<or>
           (\<exists>a b. ensureRFC3339 (parseDate env) (startDate ctx) = Some a \<and>
                  ensureRFC3339 (parseDate env) (endDate ctx) = Some b \<and> b \<le> a)"
  shows "\<exists>e. getCalendarAvailabilityTool env ctx s = Some (Inl e, s, [])"
  using assms
  by (auto simp: getCalendarAvailabilityTool_def inputSchema_def execute_def)

theorem malformed_request_rejected_witness:
  "duration request_no_duration \<le> 0 \<and>
   getCalendarAvailabilityTool env_A request_no_duration cold_state =
     Some (Inl schema_error, cold_state, []) \<and>
   ensureRFC3339 (parseDate env_A) (startDate request_inverted_range) = Some (day0 + 86400000) \<and>
   ensureRFC3339 (parseDate env_A) (endDate request_inverted_range) = Some day0 \<and>
   day0 \<le> day0 + 86400000 \<and>
   getCalendarAvailabilityTool env_A request_inverted_range cold_state =
     Some (Inl (Error ''End date must be after start date.''), cold_state, [])"
proof -
  have d: "duration request_no_duration \<le> 0"
    by (simp add: request_no_duration_def request_A_def)
  have r: "ensureRFC3339 (parseDate env_A) (startDate request_inverted_range) =
             Some (day0 + 86400000)"
    "ensureRFC3339 (parseDate env_A) (endDate request_inverted_range) = Some day0"
    by (simp_all add: request_inverted_range_def request_A_def env_A_def ensureRFC3339_def
        parse_example_def)
  from malformed_request_rejected [of request_no_duration env_A cold_state] d
  obtain e1 where 1: "getCalendarAvailabilityTool env_A request_no_duration cold_state =
      Some (Inl e1, cold_state, [])" by blast
  from malformed_request_rejected [of request_inverted_range env_A cold_state] r
  obtain e2 where 2: "getCalendarAvailabilityTool env_A request_inverted_range cold_state =
      Some (Inl e2, cold_state, [])" by auto
  have "fst (the (getCalendarAvailabilityTool env_A request_no_duration cold_state)) =
          Inl schema_error"
    by (simp add: getCalendarAvailabilityTool_def inputSchema_def request_no_duration_def
        request_A_def)
  with 1 have e1: "e1 = schema_error" by simp
  have "fst (the (getCalendarAvailabilityTool env_A request_inverted_range cold_state)) =
          Inl (Error ''End date must be after start date.'')"
    using r
    by (simp add: getCalendarAvailabilityTool_def inputSchema_def execute_def hour_ok_def
        request_inverted_range_def request_A_def)
  with 2 have e2: "e2 = Error ''End date must be after start date.''" by simp
  from d r 1 2 e1 e2 show ?thesis by simp
qed

text \<open>
  C8 as written fails: working hours from 17 to 9 pass the schema and the date checks; the
  tool asks for the calendar service, lists the events and returns an empty list of slots.
\<close>

theorem inverted_hours_not_rejected:
  "default_to 17 (maxEndHour request_inverted_hours) \<le>
     default_to 9 (minStartHour request_inverted_hours) \<and>
   map_option (\<lambda>r. (fst r, snd (snd r)))
     (getCalendarAvailabilityTool env_A request_inverted_hours cold_state) =
     Some (Inr [], [GetCalendarService ''u'', EventsList day0 (day0 + 86400000)])"
  by code_simp



end
